theory Spec2Isabelle
  imports Main "HOL-Library.Word" "HOL-Library.Sublist"
begin

unbundle bit_operations_syntax

section \<open>Hyperion node: the ArtNet bridge of \<open>main.py\<close>\<close>

text \<open>
  The development embeds the DMX / ArtNet engine of \<open>main.py\<close>: the address helper
  \<open>get_subnet_broadcast\<close> and the body of \<open>run_dmx_client\<close> (target fix-up, connection
  URI, per-message handling, reconnect loop).  Python integers are \<open>int\<close>, \<open>bytes\<close>
  are lists of \<open>8 word\<close>, \<open>str\<close> is \<open>string\<close>, the dictionary \<open>universe_channels\<close>
  is a map, and every \<open>raise\<close> is an \<open>Inl\<close>.
\<close>

subsection \<open>Python primitives used by the source\<close>

datatype py_error =
    KeyError string
  | AttributeError
  | ValueError
  | AddressValueError
  | NetmaskValueError
  | LibraryError string

text \<open>
  \<open>LibraryError\<close> stands for an exception raised inside \<open>pyartnet\<close>, which is not part
  of the repository; the string names the call that raised.  Like the others it is a
  subclass of \<open>Exception\<close>.
\<close>

text \<open>The two classes the handlers of the reconnect loop tell apart.\<close>

datatype exc = ConnectionClosed | OtherException

text \<open>
  \<open>str(n)\<close> for an integer: a sign, then decimal digits with no leading zero
  (\<open>py_str_nat\<close> is the digit loop, called on non-negative numbers only).
\<close>

definition digit_char :: "int \<Rightarrow> char" where
  "digit_char n = char_of (48 + n)"

function py_str_nat :: "int \<Rightarrow> string" where
  "py_str_nat n =
     (if n < 10 then [digit_char n] else py_str_nat (n div 10) @ [digit_char (n mod 10)])"
  by pat_completeness auto
termination
  by (relation "measure nat") auto

declare py_str_nat.simps [simp del]

definition py_str_int :: "int \<Rightarrow> string" where
  "py_str_int n = (if n < 0 then CHR ''-'' # py_str_nat (- n) else py_str_nat n)"

text \<open>\<open>c.isascii() and c.isdigit()\<close> for one character, and its value.\<close>

definition is_ascii_digit :: "char \<Rightarrow> bool" where
  "is_ascii_digit c = (48 \<le> (of_char c :: int) \<and> (of_char c :: int) \<le> 57)"

definition digit_val :: "char \<Rightarrow> int" where
  "digit_val c = of_char c - 48"

text \<open>\<open>int(s, 10)\<close> on a string of ASCII digits.\<close>

definition py_int :: "string \<Rightarrow> int" where
  "py_int s = foldl (\<lambda>acc c. 10 * acc + digit_val c) 0 s"

text \<open>\<open>s.split(sep)\<close> for a one-character separator: never empty, keeps empty fields.\<close>

fun py_split :: "char \<Rightarrow> string \<Rightarrow> string list" where
  "py_split sep [] = [[]]"
| "py_split sep (c # cs) =
     (if c = sep then [] # py_split sep cs
      else (case py_split sep cs of [] \<Rightarrow> [[c]] | p # ps \<Rightarrow> (c # p) # ps))"

text \<open>\<open>sep.join(parts)\<close>.\<close>

fun py_join :: "string \<Rightarrow> string list \<Rightarrow> string" where
  "py_join sep [] = []"
| "py_join sep [x] = x"
| "py_join sep (x # y # ys) = x @ sep @ py_join sep (y # ys)"

text \<open>
  \<open>s.replace(old, new)\<close> for a non-empty \<open>old\<close>: every non-overlapping occurrence,
  scanning from the left.  (The source only calls it with \<open>old = "http://"\<close>.)
\<close>

function py_replace :: "string \<Rightarrow> string \<Rightarrow> string \<Rightarrow> string" where
  "py_replace old new [] = []"
| "py_replace old new (c # cs) =
     (if old \<noteq> [] \<and> prefix old (c # cs)
      then new @ py_replace old new (drop (length old) (c # cs))
      else c # py_replace old new cs)"
  by pat_completeness auto
termination
  by (relation "measure (\<lambda>(old, new, s). length s)") auto

text \<open>\<open>int.from_bytes(bs, byteorder='big')\<close> and \<open>n.to_bytes(4, 'big')\<close>.\<close>

definition from_bytes_big :: "8 word list \<Rightarrow> int" where
  "from_bytes_big bs = foldl (\<lambda>acc b. acc * 256 + uint b) 0 bs"

definition to_bytes4_big :: "int \<Rightarrow> int list" where
  "to_bytes4_big n =
     [drop_bit 24 n mod 256, drop_bit 16 n mod 256, drop_bit 8 n mod 256, n mod 256]"

subsection \<open>The standard library's \<open>ipaddress.IPv4Network\<close>\<close>

text \<open>
  \<open>get_subnet_broadcast\<close> delegates to CPython's \<open>ipaddress\<close> module (3.9.5 and later,
  where an octet with a leading zero is rejected).  An address is the integer \<open>int(addr)\<close>.
\<close>

definition ALL_ONES :: int where
  "ALL_ONES = 2 ^ 32 - 1"

definition max_prefixlen :: int where
  "max_prefixlen = 32"

text \<open>\<open>IPv4Address._parse_octet\<close>, its checks in the library's order.\<close>

definition parse_octet :: "string \<Rightarrow> py_error + int" where
  "parse_octet octet_str =
     (if octet_str = [] then Inl ValueError
      else if \<not> list_all is_ascii_digit octet_str then Inl ValueError
      else if length octet_str > 3 then Inl ValueError
      else if octet_str \<noteq> ''0'' \<and> hd octet_str = CHR ''0'' then Inl ValueError
      else (let octet_int = py_int octet_str
            in if octet_int > 255 then Inl ValueError else Inr octet_int))"

text \<open>Mapping \<open>_parse_octet\<close> over the octets: the first failure is the exception.\<close>

fun parse_octets :: "string list \<Rightarrow> py_error + int list" where
  "parse_octets [] = Inr []"
| "parse_octets (s # ss) =
     (case parse_octet s of
        Inl e \<Rightarrow> Inl e
      | Inr n \<Rightarrow> (case parse_octets ss of Inl e \<Rightarrow> Inl e | Inr ns \<Rightarrow> Inr (n # ns)))"

text \<open>\<open>IPv4Address._ip_int_from_string\<close>.\<close>

definition ip_int_from_string :: "string \<Rightarrow> py_error + int" where
  "ip_int_from_string ip_str =
     (if ip_str = [] then Inl AddressValueError
      else (let octets = py_split CHR ''.'' ip_str
            in if length octets \<noteq> 4 then Inl AddressValueError
               else (case parse_octets octets of
                       Inl e \<Rightarrow> Inl AddressValueError
                     | Inr ns \<Rightarrow> Inr (foldl (\<lambda>acc b. acc * 256 + b) 0 ns))))"

text \<open>
  \<open>_prefix_from_prefix_string\<close>.  The library would next try the mask as a dotted-quad
  netmask; the only mask this program ever passes is the literal \<open>24\<close>, so that second
  form is left out and a mask that is no prefix length is the library's error.
\<close>

definition prefix_from_prefix_string :: "string \<Rightarrow> py_error + int" where
  "prefix_from_prefix_string prefixlen_str =
     (if prefixlen_str = [] \<or> \<not> list_all is_ascii_digit prefixlen_str
      then Inl NetmaskValueError
      else (let prefixlen = py_int prefixlen_str
            in if prefixlen \<le> max_prefixlen then Inr prefixlen else Inl NetmaskValueError))"

text \<open>\<open>_ip_int_from_prefix\<close>: the netmask of a prefix length.\<close>

definition ip_int_from_prefix :: "int \<Rightarrow> int" where
  "ip_int_from_prefix prefixlen = ALL_ONES XOR (drop_bit (nat prefixlen) ALL_ONES)"

text \<open>\<open>str(IPv4Address(n))\<close>.\<close>

definition string_from_ip_int :: "int \<Rightarrow> string" where
  "string_from_ip_int ip_int = py_join ''.'' (map py_str_int (to_bytes4_big ip_int))"

text \<open>
  \<open>IPv4Network(address, strict=False).broadcast_address\<close> as an integer: split off the
  mask, parse both halves, clear the host bits (not strict), set them all.
\<close>

definition network_broadcast_address :: "string \<Rightarrow> py_error + int" where
  "network_broadcast_address address =
     (let addr = py_split CHR ''/'' address
      in if length addr > 2 then Inl AddressValueError
         else (case ip_int_from_string (hd addr) of
                 Inl e \<Rightarrow> Inl e
               | Inr packed \<Rightarrow>
                   (case (if length addr > 1 then prefix_from_prefix_string (addr ! 1)
                          else Inr max_prefixlen) of
                      Inl e \<Rightarrow> Inl e
                    | Inr prefixlen \<Rightarrow>
                        (let netmask = ip_int_from_prefix prefixlen;
                             network_address = packed AND netmask;
                             hostmask = netmask XOR ALL_ONES
                         in Inr (network_address OR hostmask)))))"

subsection \<open>\<open>get_subnet_broadcast\<close>\<close>

definition get_subnet_broadcast :: "string \<Rightarrow> string" where
  "get_subnet_broadcast ip =
     (case network_broadcast_address (ip @ ''/24'') of
        Inr broadcast_address \<Rightarrow> string_from_ip_int broadcast_address
      | Inl e \<Rightarrow> ''255.255.255.255'')"

text \<open>
  The well-formed inputs of \<open>get_subnet_broadcast\<close>, in the words of its docstring and
  of the specification: four decimal octets joined by dots.
\<close>

definition octet :: "int \<Rightarrow> bool" where
  "octet n = (0 \<le> n \<and> n < 256)"

definition dotted_quad :: "int \<Rightarrow> int \<Rightarrow> int \<Rightarrow> int \<Rightarrow> string" where
  "dotted_quad a b c d = py_join ''.'' (map py_str_int [a, b, c, d])"

subsection \<open>\<open>get_local_ip\<close>\<close>


subsection \<open>The configuration record\<close>

text \<open>
  \<open>json.load\<close> yields a dictionary from field names to JSON values.  The enrollment flow
  writes strings (or \<open>null\<close> for a form field that was not sent); numbers are integers here.
\<close>

datatype json = JNull | JBool bool | JNum int | JStr string

type_synonym config = "string \<rightharpoonup> json"


definition dict_item :: "config \<Rightarrow> string \<Rightarrow> py_error + json" where
  "dict_item config key = (case config key of Some v \<Rightarrow> Inr v | None \<Rightarrow> Inl (KeyError key))"

text \<open>What an f-string writes for a value: \<open>str(v)\<close>.\<close>

fun py_format :: "json \<Rightarrow> string" where
  "py_format JNull = ''None''"
| "py_format (JBool b) = (if b then ''True'' else ''False'')"
| "py_format (JNum n) = py_str_int n"
| "py_format (JStr s) = s"

subsection \<open>\<open>run_dmx_client\<close>: target fix-up and connection URI\<close>


text \<open>
  Lines 198 and 199.  \<open>config['server_url']\<close> raises \<open>KeyError\<close> when the field is
  missing and \<open>.replace\<close> raises \<open>AttributeError\<close> on a value that is no string.
\<close>

definition connection_uri :: "config \<Rightarrow> py_error + string" where
  "connection_uri config =
     (case dict_item config ''server_url'' of
        Inl e \<Rightarrow> Inl e
      | Inr (JStr server_url) \<Rightarrow>
          (let ws_base = py_replace ''http://'' ''ws://'' server_url
           in case dict_item config ''device_secret'' of
                Inl e \<Rightarrow> Inl e
              | Inr device_secret \<Rightarrow> Inr (ws_base @ ''/dmx?token='' @ py_format device_secret))
      | Inr _ \<Rightarrow> Inl AttributeError)"

subsection \<open>The node, the registry and the log\<close>

text \<open>
  The \<open>pyartnet\<close> node is a store of channel objects; a handle is the position of the
  object in the store (object identity).  Each channel keeps the arguments it was created
  with and the frames it was set to by the calls of \<open>set_values\<close> it accepted, oldest
  first.  Of the library, which is an external collaborator, the model has the calls this
  program makes and the two checks these calls can fail:
  \<^item> \<open>node.add_universe\<close> refuses a universe outside ArtNet's 15-bit address range;
  \<^item> \<open>channel.set_values\<close> refuses a list whose length is not the width of the channel.

  The values this program sets are bytes, which a channel of byte size 1 takes.
\<close>

record channel =
  universe :: int
  start :: int
  width :: int
  channel_name :: string
  set_values_calls :: "int list list"

datatype event =
    LogBroadcast string
  | LogStart json string
  | LogConnecting json
  | LogConnected
  | LogReceive int int
  | LogRegister int
  | LogServerInfo string
  | LogConnectionLost
  | LogCriticalError
  | Connect string
  | Sleep int

record client =
  channels :: "channel list"
  universe_channels :: "int \<rightharpoonup> nat"
  trace :: "event list"

definition log :: "event \<Rightarrow> client \<Rightarrow> client" where
  "log e st = st\<lparr>trace := trace st @ [e]\<rparr>"

text \<open>The state after \<open>ArtNetNode.create\<close> and \<open>universe_channels = {}\<close>.\<close>

definition initial_client :: client where
  "initial_client = \<lparr>channels = [], universe_channels = Map.empty, trace = []\<rparr>"

subsection \<open>Handling one message (lines 209 to 237)\<close>

text \<open>A WebSocket message is \<open>bytes\<close> or \<open>str\<close>.\<close>

datatype message = Bytes "8 word list" | Str string

text \<open>The largest universe address \<open>node.add_universe\<close> accepts.\<close>

definition max_universe :: int where
  "max_universe = 32767"

text \<open>
  Lines 222 to 228: a universe that is not in the registry is logged, then
  \<open>node.add_universe\<close> is called, which raises for an address out of range; otherwise the
  universe gets a channel (start 1, width 512) and line 228 writes the channel into the
  registry.  A state is returned together with the exception that ended the statement,
  if any: what was done before the \<open>raise\<close> stays done.
\<close>

definition register_universe :: "int \<Rightarrow> client \<Rightarrow> client \<times> py_error option" where
  "register_universe u_id st =
     (let st1 = log (LogRegister u_id) st
      in if \<not> (0 \<le> u_id \<and> u_id \<le> max_universe)
         then (st1, Some (LibraryError ''add_universe''))
         else (let channel = \<lparr>universe = u_id, start = 1, width = 512,
                               channel_name = ''Univ-'' @ py_str_int u_id,
                               set_values_calls = []\<rparr>
               in (st1\<lparr>channels := channels st1 @ [channel],
                        universe_channels :=
                          (universe_channels st1)(u_id \<mapsto> length (channels st1))\<rparr>,
                   None)))"

definition ensure_universe :: "int \<Rightarrow> client \<Rightarrow> client \<times> py_error option" where
  "ensure_universe u_id st =
     (if universe_channels st u_id = None then register_universe u_id st else (st, None))"

text \<open>Lines 230 to 232: a short list is extended with zeros to 512 entries.\<close>

definition extend_to_512 :: "int list \<Rightarrow> int list" where
  "extend_to_512 dmx_values =
     (if length dmx_values < 512
      then dmx_values @ replicate (512 - length dmx_values) 0
      else dmx_values)"

text \<open>
  \<open>channel.set_values(values)\<close> on the channel object with handle \<open>h\<close>: the library raises
  when the number of values is not the width of the channel, and sets them otherwise.
\<close>

definition set_values :: "nat \<Rightarrow> int list \<Rightarrow> client \<Rightarrow> py_error + client" where
  "set_values h vs st =
     (if int (length vs) \<noteq> width (channels st ! h)
      then Inl (LibraryError ''set_values'')
      else Inr (st\<lparr>channels := (channels st)
             [h := (channels st ! h)
                \<lparr>set_values_calls := set_values_calls (channels st ! h) @ [vs]\<rparr>]\<rparr>))"

text \<open>
  The pure part of the handler, which the specification calls \<open>decode\<close>: the guard of
  line 210, the universe of lines 213 and 214, the values of lines 219, 220 and 230 to 232.
\<close>

definition decode :: "8 word list \<Rightarrow> (int \<times> int list) option" where
  "decode message =
     (if length message > 2
      then Some (from_bytes_big (take 2 message), extend_to_512 (map uint (drop 2 message)))
      else None)"

text \<open>
  The body of the \<open>async for\<close>, statement by statement.  The result is the state reached
  and the exception that left the body, if one was raised.
\<close>

definition on_message :: "message \<Rightarrow> client \<Rightarrow> client \<times> py_error option" where
  "on_message message st =
     (case message of
        Bytes bs \<Rightarrow>
          (if length bs > 2
           then (let u_id = from_bytes_big (take 2 bs);
                     dmx_len = int (length bs) - 2;
                     st1 = log (LogReceive dmx_len u_id) st;
                     dmx_raw = drop 2 bs;
                     dmx_values = map uint dmx_raw
                 in case ensure_universe u_id st1 of
                      (st2, Some e) \<Rightarrow> (st2, Some e)
                    | (st2, None) \<Rightarrow>
                        (let dmx_values = extend_to_512 dmx_values
                         in case universe_channels st2 u_id of
                              None \<Rightarrow> (st2, Some (KeyError (py_str_int u_id)))
                            | Some channel \<Rightarrow>
                                (case set_values channel dmx_values st2 of
                                   Inl e \<Rightarrow> (st2, Some e)
                                 | Inr st3 \<Rightarrow> (st3, None))))
           else (st, None))
      | Str text \<Rightarrow> (log (LogServerInfo text) st, None))"

subsection \<open>The reconnect loop (lines 203 to 244)\<close>

text \<open>
  The \<open>async for\<close> over the messages a connection delivers.  An exception of the body
  leaves the loop: the messages after the failing one are never handled.
\<close>

fun receive_all :: "message list \<Rightarrow> client \<Rightarrow> client \<times> py_error option" where
  "receive_all [] st = (st, None)"
| "receive_all (m # ms) st =
     (case on_message m st of
        (st', Some e) \<Rightarrow> (st', Some e)
      | (st', None) \<Rightarrow> receive_all ms st')"

text \<open>
  What the environment does to one pass of the \<open>while True\<close> loop: \<open>websockets.connect\<close>
  raises, or the connection is made, delivers some messages, and then the iteration either
  is exhausted (the peer closed the connection normally) or raises.
\<close>

datatype ending = Exhausted | Raised exc

datatype attempt = ConnectRaises exc | Connected "message list" ending

text \<open>The two \<open>except\<close> clauses.\<close>

definition handle_exception :: "exc \<Rightarrow> client \<Rightarrow> client" where
  "handle_exception e st =
     (case e of
        ConnectionClosed \<Rightarrow> log (Sleep 5) (log LogConnectionLost st)
      | OtherException \<Rightarrow> log (Sleep 5) (log LogCriticalError st))"

text \<open>
  One pass of the loop body.  An exception of the message handler is a built-in or a
  library exception, which the second clause catches.
\<close>

definition run_attempt :: "string \<Rightarrow> attempt \<Rightarrow> client \<Rightarrow> client" where
  "run_attempt uri a st =
     (let st0 = log (Connect uri) st
      in case a of
           ConnectRaises e \<Rightarrow> handle_exception e st0
         | Connected messages ending \<Rightarrow>
             (case receive_all messages (log LogConnected st0) of
                (st1, Some err) \<Rightarrow> handle_exception OtherException st1
              | (st1, None) \<Rightarrow>
                  (case ending of
                     Exhausted \<Rightarrow> st1
                   | Raised e \<Rightarrow> handle_exception e st1)))"

text \<open>
  \<open>while True\<close>, run for as many passes as the environment has supplied outcomes: the loop
  has no exit, so after every finite prefix it stands at the next \<open>websockets.connect\<close>.
\<close>

fun reconnect_loop :: "string \<Rightarrow> attempt list \<Rightarrow> client \<Rightarrow> client" where
  "reconnect_loop uri [] st = st"
| "reconnect_loop uri (a # as) st = reconnect_loop uri as (run_attempt uri a st)"


subsection \<open>Notions used to state the properties\<close>

text \<open>The frames pushed so far to the channel the registry holds for a universe.\<close>

definition pushes :: "client \<Rightarrow> int \<Rightarrow> int list list" where
  "pushes st u =
     (case universe_channels st u of None \<Rightarrow> [] | Some h \<Rightarrow> set_values_calls (channels st ! h))"

text \<open>The frames a list of messages carries for a universe, in order of arrival.\<close>

fun frames_for :: "int \<Rightarrow> message list \<Rightarrow> int list list" where
  "frames_for u [] = []"
| "frames_for u (Str text # ms) = frames_for u ms"
| "frames_for u (Bytes bs # ms) =
     (case decode bs of
        Some (u_id, frame) \<Rightarrow> (if u_id = u then frame # frames_for u ms else frames_for u ms)
      | None \<Rightarrow> frames_for u ms)"

text \<open>
  The messages the handler gets through without an exception: text, binary messages of
  at most two bytes, and frames for a universe in the range of the library with at most
  512 data bytes.
\<close>

definition handled :: "message \<Rightarrow> bool" where
  "handled m =
     (case m of
        Str text \<Rightarrow> True
      | Bytes bs \<Rightarrow>
          (case decode bs of
             None \<Rightarrow> True
           | Some (u_id, frame) \<Rightarrow> u_id \<le> max_universe \<and> length frame = 512))"

text \<open>
  The registry and the node agree: every registered universe is in the range of the
  library and its handle is a channel of the node, created for that universe with start 1
  and width 512; and every channel of the node is the registered one of its universe.
\<close>

definition registry_ok :: "client \<Rightarrow> bool" where
  "registry_ok st =
     ((\<forall>u h. universe_channels st u = Some h \<longrightarrow>
         0 \<le> u \<and> u \<le> max_universe \<and>
         h < length (channels st) \<and> universe (channels st ! h) = u \<and>
         start (channels st ! h) = 1 \<and> width (channels st ! h) = 512) \<and>
      (\<forall>h < length (channels st). universe_channels st (universe (channels st ! h)) = Some h))"

section \<open>Properties\<close>

subsection \<open>Decimal digits\<close>

lemma digit_val_digit_char: "0 \<le> n \<Longrightarrow> n < 10 \<Longrightarrow> digit_val (digit_char n) = n"
  by (simp add: digit_val_def digit_char_def of_char_of)

lemma is_ascii_digit_digit_char: "0 \<le> n \<Longrightarrow> n < 10 \<Longrightarrow> is_ascii_digit (digit_char n)"
  by (simp add: is_ascii_digit_def digit_char_def of_char_of)

lemma digit_char_digit_val: "is_ascii_digit c \<Longrightarrow> digit_char (digit_val c) = c"
  by (simp add: is_ascii_digit_def digit_char_def digit_val_def)

lemma digit_val_range: "is_ascii_digit c \<Longrightarrow> 0 \<le> digit_val c \<and> digit_val c < 10"
  by (simp add: is_ascii_digit_def digit_val_def)

lemma digit_char_zero: "0 \<le> n \<Longrightarrow> n < 10 \<Longrightarrow> digit_char n = CHR ''0'' \<Longrightarrow> n = 0"
  using digit_val_digit_char[of n] by (simp add: digit_val_def)

lemma digit_val_zero: "is_ascii_digit c \<Longrightarrow> digit_val c = 0 \<Longrightarrow> c = CHR ''0''"
  using digit_char_digit_val[of c] by (simp add: digit_char_def char_of_def)

lemma is_ascii_digit_no_sep: "is_ascii_digit c \<Longrightarrow> c \<noteq> CHR ''.'' \<and> c \<noteq> CHR ''/''"
  by (auto simp add: is_ascii_digit_def)

lemma py_str_nat_nonempty: "py_str_nat n \<noteq> []"
  by (subst py_str_nat.simps) simp

lemma py_str_nat_zero: "py_str_nat 0 = ''0''"
  by (simp add: py_str_nat.simps digit_char_def char_of_def)

lemma py_str_nat_digits: "0 \<le> n \<Longrightarrow> list_all is_ascii_digit (py_str_nat n)"
proof (induction n rule: py_str_nat.induct)
  case (1 n)
  show ?case
  proof (cases "n < 10")
    case True
    then show ?thesis
      using 1(2) by (subst py_str_nat.simps) (simp add: is_ascii_digit_digit_char)
  next
    case False
    then have "list_all is_ascii_digit (py_str_nat (n div 10))"
      using 1 by simp
    then show ?thesis
      using False by (subst py_str_nat.simps) (simp add: is_ascii_digit_digit_char)
  qed
qed

lemma py_int_snoc: "py_int (s @ [c]) = 10 * py_int s + digit_val c"
  by (simp add: py_int_def)

text \<open>Reading back what \<open>str\<close> wrote gives the number.\<close>

lemma py_int_py_str_nat: "0 \<le> n \<Longrightarrow> py_int (py_str_nat n) = n"
proof (induction n rule: py_str_nat.induct)
  case (1 n)
  show ?case
  proof (cases "n < 10")
    case True
    then show ?thesis
      using 1(2) by (subst py_str_nat.simps) (simp add: py_int_def digit_val_digit_char)
  next
    case False
    then have "py_int (py_str_nat (n div 10)) = n div 10"
      using 1 by simp
    then show ?thesis
      using False by (subst py_str_nat.simps) (simp add: py_int_snoc digit_val_digit_char)
  qed
qed

lemma py_str_nat_hd_zero: "0 \<le> n \<Longrightarrow> hd (py_str_nat n) = CHR ''0'' \<Longrightarrow> n = 0"
proof (induction n rule: py_str_nat.induct)
  case (1 n)
  show ?case
  proof (cases "n < 10")
    case True
    then show ?thesis
      using 1(2,3) digit_char_zero[of n] by (subst (asm) py_str_nat.simps) simp
  next
    case False
    then have "hd (py_str_nat n) = hd (py_str_nat (n div 10))"
      by (subst py_str_nat.simps) (simp add: py_str_nat_nonempty)
    then have "n div 10 = 0"
      using 1 False by simp
    then show ?thesis
      using False 1(2) by simp
  qed
qed

lemma py_str_nat_length: "n < 1000 \<Longrightarrow> length (py_str_nat n) \<le> 3"
  by (subst py_str_nat.simps, subst py_str_nat.simps, subst py_str_nat.simps) simp

lemma py_int_nonneg: "list_all is_ascii_digit s \<Longrightarrow> 0 \<le> py_int s"
proof (induction s rule: rev_induct)
  case Nil
  show ?case by (simp add: py_int_def)
next
  case (snoc c s)
  then show ?case
    using digit_val_range[of c] by (simp add: py_int_snoc)
qed

lemma py_int_pos:
  "s \<noteq> [] \<Longrightarrow> list_all is_ascii_digit s \<Longrightarrow> hd s \<noteq> CHR ''0'' \<Longrightarrow> 1 \<le> py_int s"
proof (induction s rule: rev_induct)
  case Nil
  then show ?case by simp
next
  case (snoc c s)
  show ?case
  proof (cases "s = []")
    case True
    then have "digit_val c \<noteq> 0"
      using snoc.prems digit_val_zero[of c] by auto
    then show ?thesis
      using True snoc.prems digit_val_range[of c] by (simp add: py_int_def)
  next
    case False
    then have "1 \<le> py_int s"
      using snoc by simp
    then show ?thesis
      using snoc.prems digit_val_range[of c] by (simp add: py_int_snoc)
  qed
qed

text \<open>A digit string without a leading zero is what \<open>str\<close> writes for its value.\<close>

lemma py_str_nat_py_int:
  "s \<noteq> [] \<Longrightarrow> list_all is_ascii_digit s \<Longrightarrow> s = ''0'' \<or> hd s \<noteq> CHR ''0''
   \<Longrightarrow> py_str_nat (py_int s) = s"
proof (induction s rule: rev_induct)
  case Nil
  then show ?case by simp
next
  case (snoc c s)
  have dc: "is_ascii_digit c"
    using snoc.prems by simp
  show ?case
  proof (cases "s = []")
    case True
    then show ?thesis
      using dc digit_val_range[of c]
      by (subst py_str_nat.simps) (simp add: py_int_def digit_char_digit_val)
  next
    case False
    then have h: "hd s \<noteq> CHR ''0''"
      using snoc.prems(3) by (cases s) auto
    have ds: "list_all is_ascii_digit s"
      using snoc.prems by simp
    have ih: "py_str_nat (py_int s) = s"
      using snoc.IH False ds h by simp
    have pos: "1 \<le> py_int s"
      using py_int_pos[OF False ds h] .
    have r: "0 \<le> digit_val c" "digit_val c < 10"
      using digit_val_range[OF dc] by simp_all
    have "\<not> (10 * py_int s + digit_val c < 10)"
      using pos r by simp
    moreover have "(10 * py_int s + digit_val c) div 10 = py_int s"
      using r by simp
    moreover have "(10 * py_int s + digit_val c) mod 10 = digit_val c"
      using r by simp
    ultimately show ?thesis
      by (subst py_str_nat.simps) (simp add: py_int_snoc ih digit_char_digit_val[OF dc])
  qed
qed

lemma py_str_int_nonempty: "py_str_int n \<noteq> []"
  by (simp add: py_str_int_def py_str_nat_nonempty)

lemma py_str_int_no_sep:
  assumes "0 \<le> n"
  shows "CHR ''.'' \<notin> set (py_str_int n)" "CHR ''/'' \<notin> set (py_str_int n)"
proof -
  have "list_all is_ascii_digit (py_str_int n)"
    using assms py_str_nat_digits[of n] by (simp add: py_str_int_def)
  then have "\<forall>c \<in> set (py_str_int n). c \<noteq> CHR ''.'' \<and> c \<noteq> CHR ''/''"
    using is_ascii_digit_no_sep by (auto simp add: list_all_iff)
  then show "CHR ''.'' \<notin> set (py_str_int n)" "CHR ''/'' \<notin> set (py_str_int n)"
    by auto
qed

subsection \<open>Splitting and joining\<close>

lemma py_split_nosep: "sep \<notin> set s \<Longrightarrow> py_split sep s = [s]"
  by (induction s) auto

lemma py_split_append: "sep \<notin> set s \<Longrightarrow> py_split sep (s @ sep # t) = s # py_split sep t"
  by (induction s) auto

lemma py_split_nonempty: "py_split sep s \<noteq> []"
  by (induction s) (auto split: list.splits)

lemma py_join_split: "py_join [sep] (py_split sep s) = s"
proof (induction s)
  case Nil
  show ?case by simp
next
  case (Cons c cs)
  show ?case
  proof (cases "py_split sep cs")
    case Nil
    then show ?thesis
      using py_split_nonempty[of sep cs] by simp
  next
    case (Cons p ps)
    then show ?thesis
      using Cons.IH by (cases ps) auto
  qed
qed

lemma py_split_length: "length (py_split sep s) = Suc (length (filter (\<lambda>c. c = sep) s))"
  by (induction s) (auto split: list.splits simp: py_split_nonempty)

subsection \<open>Octets and addresses\<close>

lemma parse_octet_str:
  assumes "0 \<le> n" "n < 256"
  shows "parse_octet (py_str_int n) = Inr n"
proof -
  have s: "py_str_int n = py_str_nat n"
    using assms by (simp add: py_str_int_def)
  have z: "py_str_nat n = ''0'' \<or> hd (py_str_nat n) \<noteq> CHR ''0''"
    using py_str_nat_hd_zero[OF assms(1)] py_str_nat_zero by auto
  have l: "length (py_str_nat n) \<le> 3"
    using assms by (intro py_str_nat_length) simp
  show ?thesis
    unfolding s parse_octet_def using assms z l
    by (simp add: py_str_nat_nonempty py_str_nat_digits py_int_py_str_nat)
qed

lemma parse_octet_Inr:
  assumes "parse_octet s = Inr n"
  shows "s = py_str_int n \<and> 0 \<le> n \<and> n < 256"
proof -
  from assms have ne: "s \<noteq> []" and dg: "list_all is_ascii_digit s"
    and lz: "s = ''0'' \<or> hd s \<noteq> CHR ''0''" and n: "n = py_int s" and le: "py_int s \<le> 255"
    by (auto simp add: parse_octet_def Let_def split: if_splits)
  have "0 \<le> n"
    using n py_int_nonneg[OF dg] by simp
  moreover have "py_str_nat n = s"
    unfolding n by (rule py_str_nat_py_int[OF ne dg lz])
  ultimately show ?thesis
    using n le by (simp add: py_str_int_def)
qed

lemma parse_octets_Inr:
  "parse_octets ss = Inr ns \<Longrightarrow> ss = map py_str_int ns \<and> list_all octet ns"
proof (induction ss arbitrary: ns)
  case Nil
  then show ?case by auto
next
  case (Cons s ss)
  from Cons.prems obtain n ms where n: "parse_octet s = Inr n"
    and ms: "parse_octets ss = Inr ms" and ns: "ns = n # ms"
    by (auto split: sum.splits)
  from parse_octet_Inr[OF n] Cons.IH[OF ms] ns show ?case
    by (simp add: octet_def)
qed

lemma dotted_quad_app:
  "dotted_quad a b c d =
     py_str_int a @ CHR ''.'' # py_str_int b @ CHR ''.'' # py_str_int c @ CHR ''.'' # py_str_int d"
  by (simp add: dotted_quad_def)

lemma split_dotted_quad:
  assumes "0 \<le> a" "0 \<le> b" "0 \<le> c" "0 \<le> d"
  shows "py_split CHR ''.'' (dotted_quad a b c d) = map py_str_int [a, b, c, d]"
  using assms by (simp add: dotted_quad_app py_split_append py_split_nosep py_str_int_no_sep)

lemma dotted_quad_no_slash:
  assumes "0 \<le> a" "0 \<le> b" "0 \<le> c" "0 \<le> d"
  shows "CHR ''/'' \<notin> set (dotted_quad a b c d)"
  using assms by (simp add: dotted_quad_app py_str_int_no_sep)

lemma ip_int_dotted_quad:
  assumes "octet a" "octet b" "octet c" "octet d"
  shows "ip_int_from_string (dotted_quad a b c d) = Inr (((a * 256 + b) * 256 + c) * 256 + d)"
proof -
  have ne: "dotted_quad a b c d \<noteq> []"
    by (simp add: dotted_quad_app py_str_int_nonempty)
  have sp: "py_split CHR ''.'' (dotted_quad a b c d) = map py_str_int [a, b, c, d]"
    using assms by (intro split_dotted_quad) (simp_all add: octet_def)
  have po: "parse_octets (map py_str_int [a, b, c, d]) = Inr [a, b, c, d]"
    using assms by (simp add: octet_def parse_octet_str)
  show ?thesis
    unfolding ip_int_from_string_def Let_def sp po using ne by simp
qed

subsection \<open>The /24 broadcast address\<close>

lemma netmask_24_numeral: "(4294967040::int) = push_bit 8 (mask 24)"
  by (simp add: mask_eq_exp_minus_1 push_bit_eq_mult)

lemma hostmask_24_numeral: "(255::int) = mask 8"
  by (simp add: mask_eq_exp_minus_1)

lemma broadcast_high_byte:
  assumes "8 \<le> k"
  shows "drop_bit k (((x::int) AND 4294967040) OR 255) mod 256 = drop_bit k (take_bit 32 x) mod 256"
proof -
  have "take_bit 8 (drop_bit k ((x AND push_bit 8 (mask 24)) OR mask 8)) =
      take_bit 8 (drop_bit k (take_bit 32 x))"
    using assms by (auto simp add: bit_eq_iff bit_simps)
  then show ?thesis
    by (simp add: take_bit_eq_mod netmask_24_numeral hostmask_24_numeral)
qed

lemma broadcast_low_byte: "(((x::int) AND 4294967040) OR 255) mod 256 = 255"
proof -
  have "take_bit 8 ((x AND push_bit 8 (mask 24)) OR mask 8) = (mask 8 :: int)"
    by (auto simp add: bit_eq_iff bit_simps)
  then show ?thesis
    by (simp add: take_bit_eq_mod netmask_24_numeral hostmask_24_numeral)
qed

lemma div_256: "0 \<le> r \<Longrightarrow> r < 256 \<Longrightarrow> (q * 256 + r) div 256 = (q::int)"
  by simp

lemma mod_256: "0 \<le> r \<Longrightarrow> r < 256 \<Longrightarrow> (q * 256 + r) mod 256 = (r::int)"
  by simp

lemma quad_bytes:
  fixes a b c d :: int
  assumes "0 \<le> a" "a < 256" "0 \<le> b" "b < 256" "0 \<le> c" "c < 256" "0 \<le> d" "d < 256"
  defines "x \<equiv> ((a * 256 + b) * 256 + c) * 256 + d"
  shows "drop_bit 24 (take_bit 32 x) mod 256 = a"
    and "drop_bit 16 (take_bit 32 x) mod 256 = b"
    and "drop_bit 8 (take_bit 32 x) mod 256 = c"
proof -
  have x0: "0 \<le> x"
    using assms by simp
  have "x < 2 ^ 32"
    using assms by simp
  then have tb: "take_bit 32 x = x"
    using x0 by (simp add: take_bit_int_eq_self)
  have d8: "x div 256 = (a * 256 + b) * 256 + c"
    unfolding x_def using assms by (simp only: div_256)
  have d16: "x div 256 div 256 = a * 256 + b"
    unfolding d8 using assms by (simp only: div_256)
  have d24: "x div 256 div 256 div 256 = a"
    unfolding d16 using assms by (simp only: div_256)
  have e8: "drop_bit 8 x = x div 256"
    by (simp add: drop_bit_eq_div)
  have e16: "drop_bit 16 x = x div 256 div 256"
    by (simp add: drop_bit_eq_div div_mult2_eq[symmetric])
  have e24: "drop_bit 24 x = x div 256 div 256 div 256"
    by (simp add: drop_bit_eq_div div_mult2_eq[symmetric])
  show "drop_bit 24 (take_bit 32 x) mod 256 = a"
    unfolding tb e24 d24 using assms by simp
  show "drop_bit 16 (take_bit 32 x) mod 256 = b"
    unfolding tb e16 d16 using assms by (simp only: mod_256)
  show "drop_bit 8 (take_bit 32 x) mod 256 = c"
    unfolding tb e8 d8 using assms by (simp only: mod_256)
qed

lemma to_bytes4_broadcast:
  assumes "octet a" "octet b" "octet c" "octet d"
  shows "to_bytes4_big ((((((a * 256 + b) * 256 + c) * 256 + d) AND 4294967040) OR 255)) =
    [a, b, c, 255]"
proof -
  let ?x = "((a * 256 + b) * 256 + c) * 256 + d"
  have h24: "drop_bit 24 ((?x AND 4294967040) OR 255) mod 256 = a"
    by (rule trans[OF broadcast_high_byte quad_bytes(1)])
      (use assms in \<open>simp_all add: octet_def\<close>)
  have h16: "drop_bit 16 ((?x AND 4294967040) OR 255) mod 256 = b"
    by (rule trans[OF broadcast_high_byte quad_bytes(2)])
      (use assms in \<open>simp_all add: octet_def\<close>)
  have h8: "drop_bit 8 ((?x AND 4294967040) OR 255) mod 256 = c"
    by (rule trans[OF broadcast_high_byte quad_bytes(3)])
      (use assms in \<open>simp_all add: octet_def\<close>)
  show ?thesis
    by (simp only: to_bytes4_big_def h24 h16 h8 broadcast_low_byte)
qed

lemma split_slash: "CHR ''/'' \<notin> set ip \<Longrightarrow> py_split CHR ''/'' (ip @ ''/24'') = [ip, ''24'']"
  by (simp add: py_split_append)

lemma prefix_24: "prefix_from_prefix_string ''24'' = Inr 24"
  by (simp add: prefix_from_prefix_string_def is_ascii_digit_def py_int_def digit_val_def
      max_prefixlen_def)

lemma netmask_24: "ip_int_from_prefix 24 = 4294967040"
  by (simp add: ip_int_from_prefix_def ALL_ONES_def)

lemma network_broadcast_no_slash:
  assumes "CHR ''/'' \<notin> set ip"
  shows "network_broadcast_address (ip @ ''/24'') =
    (case ip_int_from_string ip of
       Inl e \<Rightarrow> Inl e
     | Inr packed \<Rightarrow> Inr ((packed AND 4294967040) OR 255))"
  unfolding network_broadcast_address_def Let_def split_slash[OF assms]
  by (simp add: prefix_24 netmask_24 ALL_ONES_def split: sum.splits)

lemma gsb_dotted_quad:
  assumes "octet a" "octet b" "octet c" "octet d"
  shows "get_subnet_broadcast (dotted_quad a b c d) = dotted_quad a b c 255"
proof -
  have ns: "CHR ''/'' \<notin> set (dotted_quad a b c d)"
    using assms by (intro dotted_quad_no_slash) (simp_all add: octet_def)
  have "get_subnet_broadcast (dotted_quad a b c d) =
      string_from_ip_int ((((((a * 256 + b) * 256 + c) * 256 + d) AND 4294967040) OR 255))"
    unfolding get_subnet_broadcast_def network_broadcast_no_slash[OF ns]
      ip_int_dotted_quad[OF assms] by simp
  also have "\<dots> = dotted_quad a b c 255"
    unfolding string_from_ip_int_def to_bytes4_broadcast[OF assms] dotted_quad_def ..
  finally show ?thesis .
qed

lemma slash_free:
  assumes "length (py_split CHR ''/'' (ip @ ''/24'')) \<le> 2"
  shows "CHR ''/'' \<notin> set ip"
proof -
  have "filter (\<lambda>c. c = CHR ''/'') ip = []"
    using assms by (simp add: py_split_length)
  then show ?thesis
    by (auto simp add: filter_empty_conv)
qed

text \<open>Only a dotted quad of four octets gets past the library's parser.\<close>

lemma network_broadcast_Inr:
  assumes "network_broadcast_address (ip @ ''/24'') = Inr y"
  shows "\<exists>a b c d. octet a \<and> octet b \<and> octet c \<and> octet d \<and> ip = dotted_quad a b c d"
proof -
  have "length (py_split CHR ''/'' (ip @ ''/24'')) \<le> 2"
    using assms by (auto simp add: network_broadcast_address_def Let_def split: if_splits)
  then have ns: "CHR ''/'' \<notin> set ip"
    by (rule slash_free)
  from assms obtain packed where "ip_int_from_string ip = Inr packed"
    unfolding network_broadcast_no_slash[OF ns] by (auto split: sum.splits)
  then obtain ns where len: "length (py_split CHR ''.'' ip) = 4"
    and po: "parse_octets (py_split CHR ''.'' ip) = Inr ns"
    by (auto simp add: ip_int_from_string_def Let_def split: if_splits sum.splits)
  from parse_octets_Inr[OF po] have sp: "py_split CHR ''.'' ip = map py_str_int ns"
    and oc: "list_all octet ns"
    by simp_all
  from len sp have "length ns = 4"
    by simp
  then obtain a b c d where abcd: "ns = [a, b, c, d]"
    by (auto simp add: length_Suc_conv numeral_eq_Suc)
  have "ip = py_join ''.'' (py_split CHR ''.'' ip)"
    by (simp add: py_join_split)
  then have "ip = dotted_quad a b c d"
    unfolding sp abcd dotted_quad_def .
  then show ?thesis
    using oc abcd by auto
qed

lemma gsb_malformed:
  assumes "\<not> (\<exists>a b c d. octet a \<and> octet b \<and> octet c \<and> octet d \<and> ip = dotted_quad a b c d)"
  shows "get_subnet_broadcast ip = ''255.255.255.255''"
proof (cases "network_broadcast_address (ip @ ''/24'')")
  case (Inl e)
  then show ?thesis
    by (simp add: get_subnet_broadcast_def)
next
  case (Inr y)
  from network_broadcast_Inr[OF Inr] assms show ?thesis
    by blast
qed

lemma gsb_example: "get_subnet_broadcast ''192.168.178.50'' = ''192.168.178.255''"
  by code_simp

subsection \<open>The frame decoder\<close>

lemma length_extend_to_512: "length (extend_to_512 vs) = max 512 (length vs)"
  by (simp add: extend_to_512_def)

lemma nth_extend_to_512:
  "i < length (extend_to_512 vs) \<Longrightarrow>
   extend_to_512 vs ! i = (if i < length vs then vs ! i else 0)"
  by (auto simp add: extend_to_512_def nth_append)

lemma from_bytes_big_nonneg: "0 \<le> from_bytes_big bs"
proof -
  have "0 \<le> acc \<Longrightarrow> 0 \<le> foldl (\<lambda>acc b. acc * 256 + uint b) acc bs" for acc
    by (induction bs arbitrary: acc) simp_all
  then show ?thesis
    by (simp add: from_bytes_big_def)
qed

text \<open>
  What \<open>decode\<close> does on every message longer than the header: the frame has 512 entries
  or the number of data bytes, whichever is larger; the data bytes come first and zeros
  fill the rest.
\<close>

lemma decode_frame:
  assumes "2 < length bs"
  shows "\<exists>u frame. decode bs = Some (u, frame) \<and>
    length frame = max 512 (length bs - 2) \<and>
    (\<forall>i < length frame. frame ! i = (if i < length bs - 2 then uint (bs ! (i + 2)) else 0))"
  using assms by (simp add: decode_def length_extend_to_512 nth_extend_to_512 add.commute)

lemma decode_universe_nonneg: "decode bs = Some (u, frame) \<Longrightarrow> 0 \<le> u"
  by (auto simp add: decode_def from_bytes_big_nonneg split: if_splits)

subsection \<open>The registry\<close>

lemma log_simps [simp]:
  "channels (log e st) = channels st"
  "universe_channels (log e st) = universe_channels st"
  "trace (log e st) = trace st @ [e]"
  by (simp_all add: log_def)

lemma registry_ok_log [simp]: "registry_ok (log e st) = registry_ok st"
  by (simp add: registry_ok_def)

lemma pushes_log [simp]: "pushes (log e st) u = pushes st u"
  by (simp add: pushes_def split: option.splits)

text \<open>The two outcomes of a registration.\<close>

lemma register_universe_raises:
  "\<not> (0 \<le> u \<and> u \<le> max_universe) \<Longrightarrow>
   register_universe u st = (log (LogRegister u) st, Some (LibraryError ''add_universe''))"
  by (simp add: register_universe_def Let_def)

lemma register_universe_ok:
  assumes "0 \<le> u" "u \<le> max_universe"
  shows "snd (register_universe u st) = None"
    and "channels (fst (register_universe u st)) = channels st @
      [\<lparr>universe = u, start = 1, width = 512, channel_name = ''Univ-'' @ py_str_int u,
        set_values_calls = []\<rparr>]"
    and "universe_channels (fst (register_universe u st)) =
      (universe_channels st)(u \<mapsto> length (channels st))"
    and "trace (fst (register_universe u st)) = trace st @ [LogRegister u]"
  using assms by (simp_all add: register_universe_def Let_def)

lemma ensure_universe_registered:
  "universe_channels st u = Some h \<Longrightarrow> ensure_universe u st = (st, None)"
  by (simp add: ensure_universe_def)

lemma ensure_universe_raises:
  "universe_channels st u = None \<Longrightarrow> \<not> (0 \<le> u \<and> u \<le> max_universe) \<Longrightarrow>
   ensure_universe u st = (log (LogRegister u) st, Some (LibraryError ''add_universe''))"
  by (simp add: ensure_universe_def register_universe_raises)

lemma ensure_universe_ok:
  assumes "0 \<le> u" "u \<le> max_universe"
  shows "snd (ensure_universe u st) = None \<and>
    (\<exists>h. universe_channels (fst (ensure_universe u st)) u = Some h)"
  using assms
  by (cases "universe_channels st u") (simp_all add: ensure_universe_def register_universe_ok)

lemma ensure_universe_idem:
  assumes "snd (ensure_universe u st) = None"
  shows "ensure_universe u (fst (ensure_universe u st)) = (fst (ensure_universe u st), None)"
proof (cases "universe_channels st u")
  case (Some h)
  then show ?thesis
    by (simp add: ensure_universe_def)
next
  case None
  then have r: "0 \<le> u \<and> u \<le> max_universe"
    using assms by (auto simp add: ensure_universe_def register_universe_def Let_def split: if_splits)
  then show ?thesis
    using None by (simp add: ensure_universe_def register_universe_ok)
qed

lemma ensure_universe_keeps:
  "universe_channels st v = Some h \<Longrightarrow>
   universe_channels (fst (ensure_universe u st)) v = Some h"
  by (cases "0 \<le> u \<and> u \<le> max_universe")
    (auto simp add: ensure_universe_def register_universe_ok register_universe_raises)

lemma registry_ok_register:
  assumes "registry_ok st" "universe_channels st u = None"
  shows "registry_ok (fst (register_universe u st))"
proof (cases "0 \<le> u \<and> u \<le> max_universe")
  case False
  then show ?thesis
    using assms(1) by (simp add: register_universe_raises)
next
  case True
  then show ?thesis
    using assms unfolding registry_ok_def
    by (auto simp add: register_universe_ok nth_append less_Suc_eq)
qed

lemma registry_ok_ensure: "registry_ok st \<Longrightarrow> registry_ok (fst (ensure_universe u st))"
  by (simp add: ensure_universe_def registry_ok_register)

lemma pushes_ensure:
  assumes "registry_ok st"
  shows "pushes (fst (ensure_universe u st)) w = pushes st w"
proof (cases "universe_channels st u = None \<and> 0 \<le> u \<and> u \<le> max_universe")
  case False
  then show ?thesis
    by (cases "universe_channels st u")
      (auto simp add: ensure_universe_def register_universe_raises)
next
  case True
  then show ?thesis
    using assms unfolding pushes_def registry_ok_def
    by (auto simp add: ensure_universe_def register_universe_ok nth_append split: option.splits)
qed

lemma trace_ensure: "\<exists>r. trace (fst (ensure_universe u st)) = trace st @ r"
  by (cases "0 \<le> u \<and> u \<le> max_universe")
    (auto simp add: ensure_universe_def register_universe_ok register_universe_raises)

text \<open>The two outcomes of \<open>set_values\<close>.\<close>

lemma set_values_raises:
  "int (length vs) \<noteq> width (channels st ! h) \<Longrightarrow>
   set_values h vs st = Inl (LibraryError ''set_values'')"
  by (simp add: set_values_def)

lemma set_values_ok:
  assumes "int (length vs) = width (channels st ! h)"
  shows "\<exists>st'. set_values h vs st = Inr st' \<and>
    universe_channels st' = universe_channels st \<and> trace st' = trace st \<and>
    length (channels st') = length (channels st) \<and>
    (\<forall>k < length (channels st). channels st' ! k =
      (if k = h
       then (channels st ! h)\<lparr>set_values_calls := set_values_calls (channels st ! h) @ [vs]\<rparr>
       else channels st ! k))"
  using assms by (simp add: set_values_def nth_list_update)

lemma set_values_Inr:
  assumes "set_values h vs st = Inr st'"
  shows "universe_channels st' = universe_channels st"
    and "trace st' = trace st"
    and "length (channels st') = length (channels st)"
    and "k < length (channels st) \<Longrightarrow> channels st' ! k =
      (if k = h
       then (channels st ! h)\<lparr>set_values_calls := set_values_calls (channels st ! h) @ [vs]\<rparr>
       else channels st ! k)"
    and "int (length vs) = width (channels st ! h)"
  using assms by (auto simp add: set_values_def nth_list_update split: if_splits)

lemma registry_ok_set_values:
  assumes "registry_ok st" "set_values h vs st = Inr st'"
  shows "registry_ok st'"
proof -
  note sv = set_values_Inr[OF assms(2)]
  have same: "universe (channels st' ! k) = universe (channels st ! k) \<and>
      start (channels st' ! k) = start (channels st ! k) \<and>
      width (channels st' ! k) = width (channels st ! k)"
    if "k < length (channels st)" for k
    using sv(4)[OF that] by simp
  show ?thesis
    using assms(1) same unfolding registry_ok_def sv(1) sv(3) by simp
qed

lemma registry_ok_initial: "registry_ok initial_client"
  by (simp add: registry_ok_def initial_client_def)

text \<open>One output of the node per registered universe, none for the others.\<close>

lemma channel_count:
  assumes "registry_ok st"
  shows "length (filter (\<lambda>c. universe c = u) (channels st)) =
    (case universe_channels st u of None \<Rightarrow> 0 | Some h \<Rightarrow> 1)"
proof -
  have "{i. i < length (channels st) \<and> universe (channels st ! i) = u} =
      (case universe_channels st u of None \<Rightarrow> {} | Some h \<Rightarrow> {h})"
    using assms by (auto simp add: registry_ok_def split: option.splits)
  then show ?thesis
    by (simp add: length_filter_conv_card split: option.splits)
qed

subsection \<open>The message handler\<close>

lemma on_message_Str: "on_message (Str t) st = (log (LogServerInfo t) st, None)"
  by (simp add: on_message_def)

lemma on_message_ignored: "decode bs = None \<Longrightarrow> on_message (Bytes bs) st = (st, None)"
  by (simp add: on_message_def decode_def split: if_splits)

text \<open>The handler is \<open>decode\<close>, then the registry, then \<open>set_values\<close>.\<close>

lemma on_message_frame:
  assumes "decode bs = Some (u, frame)"
  shows "on_message (Bytes bs) st =
     (case ensure_universe u (log (LogReceive (int (length bs) - 2) u) st) of
        (st2, Some e) \<Rightarrow> (st2, Some e)
      | (st2, None) \<Rightarrow>
          (case universe_channels st2 u of
             None \<Rightarrow> (st2, Some (KeyError (py_str_int u)))
           | Some h \<Rightarrow>
               (case set_values h frame st2 of
                  Inl e \<Rightarrow> (st2, Some e)
                | Inr st3 \<Rightarrow> (st3, None))))"
  using assms by (auto simp add: on_message_def decode_def Let_def split: if_splits)

lemma frames_for_Cons: "frames_for u (m # ms) = frames_for u [m] @ frames_for u ms"
  by (cases m) (auto split: option.splits)

text \<open>
  One message, from a state in which registry and node agree: they still agree
  afterwards; the handler raises exactly on the messages that are not \<open>handled\<close>; and a
  handled frame is pushed to the channel of its universe, after all earlier ones, while a
  message that raises pushes nothing.
\<close>

lemma on_message_step:
  assumes ok: "registry_ok st"
  shows "registry_ok (fst (on_message m st)) \<and>
    (snd (on_message m st) = None \<longleftrightarrow> handled m) \<and>
    pushes (fst (on_message m st)) u =
      pushes st u @ (if handled m then frames_for u [m] else [])"
proof (cases m)
  case (Str t)
  then show ?thesis
    using ok by (simp add: on_message_Str handled_def)
next
  case (Bytes bs)
  show ?thesis
  proof (cases "decode bs")
    case None
    then show ?thesis
      using ok Bytes by (simp add: on_message_ignored handled_def)
  next
    case (Some p)
    obtain v frame where p: "p = (v, frame)"
      by (cases p)
    have dec: "decode bs = Some (v, frame)"
      using Some p by simp
    have v0: "0 \<le> v"
      using dec by (rule decode_universe_nonneg)
    have hm: "handled m \<longleftrightarrow> v \<le> max_universe \<and> length frame = 512"
      using Bytes dec by (simp add: handled_def)
    have fm: "frames_for u [m] = (if v = u then [frame] else [])"
      using Bytes dec by simp
    define st1 where "st1 = log (LogReceive (int (length bs) - 2) v) st"
    have ok1: "registry_ok st1"
      using ok by (simp add: st1_def)
    note om = on_message_frame[OF dec, of st, folded st1_def]
    show ?thesis
    proof (cases "universe_channels st1 v = None \<and> \<not> v \<le> max_universe")
      case True
      then have "ensure_universe v st1 =
          (log (LogRegister v) st1, Some (LibraryError ''add_universe''))"
        by (intro ensure_universe_raises) simp_all
      then have "on_message m st = (log (LogRegister v) st1, Some (LibraryError ''add_universe''))"
        using Bytes om by simp
      then show ?thesis
        using True ok1 hm by (simp add: st1_def)
    next
      case False
      then have vmax: "v \<le> max_universe"
        using ok1 by (cases "universe_channels st1 v") (auto simp add: registry_ok_def)
      define st2 where "st2 = fst (ensure_universe v st1)"
      have e: "ensure_universe v st1 = (st2, None)"
        using ensure_universe_ok[OF v0 vmax, of st1] by (simp add: st2_def prod_eq_iff)
      obtain h where h: "universe_channels st2 v = Some h"
        using ensure_universe_ok[OF v0 vmax, of st1] by (auto simp add: st2_def)
      have ok2: "registry_ok st2"
        unfolding st2_def using ok1 by (rule registry_ok_ensure)
      have hlt: "h < length (channels st2)" and hu: "universe (channels st2 ! h) = v"
        and hw: "width (channels st2 ! h) = 512"
        using ok2 h by (auto simp add: registry_ok_def)
      have old: "pushes st2 w = pushes st w" for w
        using pushes_ensure[OF ok1, of v w] by (simp add: st2_def st1_def)
      show ?thesis
      proof (cases "length frame = 512")
        case False
        then have "set_values h frame st2 = Inl (LibraryError ''set_values'')"
          using hw by (intro set_values_raises) simp
        then have "on_message m st = (st2, Some (LibraryError ''set_values''))"
          using Bytes om e h by simp
        then show ?thesis
          using False ok2 hm old by simp
      next
        case True
        then obtain st3 where s3: "set_values h frame st2 = Inr st3"
          using set_values_ok[of frame st2 h] hw by auto
        note sv = set_values_Inr[OF s3]
        have res: "on_message m st = (st3, None)"
          using Bytes om e h s3 by simp
        have ok3: "registry_ok st3"
          using ok2 s3 by (rule registry_ok_set_values)
        have pu: "pushes st3 u = pushes st2 u @ (if v = u then [frame] else [])"
        proof (cases "v = u")
          case True
          then show ?thesis
            using h hlt sv(4)[OF hlt] by (simp add: pushes_def sv(1))
        next
          case False
          show ?thesis
          proof (cases "universe_channels st2 u")
            case None
            then show ?thesis
              using False by (simp add: pushes_def sv(1))
          next
            case (Some k)
            then have klt: "k < length (channels st2)" and "universe (channels st2 ! k) = u"
              using ok2 by (auto simp add: registry_ok_def)
            then have "k \<noteq> h"
              using hu False by auto
            then show ?thesis
              using Some False sv(4)[OF klt] by (simp add: pushes_def sv(1))
          qed
        qed
        show ?thesis
          using res ok3 hm vmax True pu old fm by simp
      qed
    qed
  qed
qed

lemma on_message_keeps:
  assumes "universe_channels st v = Some h"
  shows "universe_channels (fst (on_message m st)) v = Some h"
proof (cases m)
  case (Str t)
  then show ?thesis
    using assms by (simp add: on_message_Str)
next
  case (Bytes bs)
  show ?thesis
  proof (cases "decode bs")
    case None
    then show ?thesis
      using assms Bytes by (simp add: on_message_ignored)
  next
    case (Some p)
    obtain u frame where dec: "decode bs = Some (u, frame)"
      using Some by (cases p) simp
    define st2 where "st2 = fst (ensure_universe u (log (LogReceive (int (length bs) - 2) u) st))"
    have k2: "universe_channels st2 v = Some h"
      unfolding st2_def using assms by (intro ensure_universe_keeps) simp
    have "fst (on_message m st) = st2 \<or>
        (\<exists>k st3. set_values k frame st2 = Inr st3 \<and> fst (on_message m st) = st3)"
      using Bytes on_message_frame[OF dec, of st]
      by (auto simp add: st2_def split: prod.splits option.splits sum.splits)
    then show ?thesis
      using k2 set_values_Inr(1) by auto
  qed
qed

lemma on_message_trace_grows: "\<exists>r. trace (fst (on_message m st)) = trace st @ r"
proof (cases m)
  case (Str t)
  then show ?thesis
    by (simp add: on_message_Str)
next
  case (Bytes bs)
  show ?thesis
  proof (cases "decode bs")
    case None
    then show ?thesis
      using Bytes by (simp add: on_message_ignored)
  next
    case (Some p)
    obtain u frame where dec: "decode bs = Some (u, frame)"
      using Some by (cases p) simp
    define st2 where "st2 = fst (ensure_universe u (log (LogReceive (int (length bs) - 2) u) st))"
    obtain r where r: "trace st2 = trace st @ r"
      using trace_ensure[of u "log (LogReceive (int (length bs) - 2) u) st"]
      by (auto simp add: st2_def)
    have "fst (on_message m st) = st2 \<or>
        (\<exists>k st3. set_values k frame st2 = Inr st3 \<and> fst (on_message m st) = st3)"
      using Bytes on_message_frame[OF dec, of st]
      by (auto simp add: st2_def split: prod.splits option.splits sum.splits)
    then show ?thesis
      using r set_values_Inr(2) by auto
  qed
qed

subsection \<open>One connection and the loop\<close>

lemma receive_all_step:
  "registry_ok st \<Longrightarrow>
   registry_ok (fst (receive_all ms st)) \<and>
   (snd (receive_all ms st) = None \<longleftrightarrow> list_all handled ms) \<and>
   pushes (fst (receive_all ms st)) u = pushes st u @ frames_for u (takeWhile handled ms)"
proof (induction ms arbitrary: st)
  case Nil
  then show ?case by simp
next
  case (Cons m ms)
  obtain st' r where om: "on_message m st = (st', r)"
    by (cases "on_message m st")
  from on_message_step[OF Cons.prems, of m u] om
  have ok': "registry_ok st'" and r: "r = None \<longleftrightarrow> handled m"
    and pu: "pushes st' u = pushes st u @ (if handled m then frames_for u [m] else [])"
    by simp_all
  show ?case
  proof (cases "handled m")
    case False
    then obtain e where "r = Some e"
      using r by (cases r) auto
    then show ?thesis
      using om ok' pu False by simp
  next
    case True
    then have "r = None"
      using r by simp
    then show ?thesis
      using om Cons.IH[OF ok'] pu True frames_for_Cons[of u m "takeWhile handled ms"] by simp
  qed
qed

lemma receive_all_keeps:
  "universe_channels st v = Some h \<Longrightarrow>
   universe_channels (fst (receive_all ms st)) v = Some h"
proof (induction ms arbitrary: st)
  case Nil
  then show ?case by simp
next
  case (Cons m ms)
  obtain st' r where om: "on_message m st = (st', r)"
    by (cases "on_message m st")
  have "universe_channels st' v = Some h"
    using on_message_keeps[OF Cons.prems, of m] om by simp
  then show ?case
    using Cons.IH[of st'] om by (cases r) simp_all
qed

lemma receive_all_trace_grows: "\<exists>r. trace (fst (receive_all ms st)) = trace st @ r"
proof (induction ms arbitrary: st)
  case Nil
  show ?case by simp
next
  case (Cons m ms)
  obtain st' r where om: "on_message m st = (st', r)"
    by (cases "on_message m st")
  from on_message_trace_grows[of m st] Cons.IH[of st'] om show ?case
    by (cases r) auto
qed

lemma handle_exception_simps [simp]:
  "channels (handle_exception e st) = channels st"
  "universe_channels (handle_exception e st) = universe_channels st"
  by (cases e; simp add: handle_exception_def)+

lemma registry_ok_handle_exception [simp]:
  "registry_ok (handle_exception e st) = registry_ok st"
  by (simp add: registry_ok_def)

lemma trace_handle_exception:
  "\<exists>l. trace (handle_exception e st) = trace st @ [l, Sleep 5]"
  by (cases e) (simp_all add: handle_exception_def)

text \<open>A pass of the loop ends in the state the messages left, possibly after a handler.\<close>

lemma run_attempt_cases:
  "run_attempt uri (ConnectRaises e) st = handle_exception e (log (Connect uri) st)"
  "run_attempt uri (Connected ms en) st =
     fst (receive_all ms (log LogConnected (log (Connect uri) st))) \<or>
   (\<exists>e. run_attempt uri (Connected ms en) st =
     handle_exception e (fst (receive_all ms (log LogConnected (log (Connect uri) st)))))"
  by (auto simp add: run_attempt_def split: prod.splits option.splits ending.splits)

lemma run_attempt_keeps:
  assumes "universe_channels st v = Some h"
  shows "universe_channels (run_attempt uri a st) v = Some h"
proof (cases a)
  case (ConnectRaises e)
  then show ?thesis
    using assms by (simp add: run_attempt_cases)
next
  case (Connected ms en)
  from assms
  have "universe_channels (fst (receive_all ms (log LogConnected (log (Connect uri) st)))) v =
      Some h"
    by (intro receive_all_keeps) simp
  then show ?thesis
    using Connected run_attempt_cases(2)[of uri ms en st] by auto
qed

lemma registry_ok_run_attempt:
  assumes "registry_ok st"
  shows "registry_ok (run_attempt uri a st)"
proof (cases a)
  case (ConnectRaises e)
  then show ?thesis
    using assms by (simp add: run_attempt_cases)
next
  case (Connected ms en)
  from assms
  have "registry_ok (fst (receive_all ms (log LogConnected (log (Connect uri) st))))"
    using receive_all_step[of "log LogConnected (log (Connect uri) st)" ms] by simp
  then show ?thesis
    using Connected run_attempt_cases(2)[of uri ms en st] by auto
qed

lemma reconnect_loop_keeps:
  "universe_channels st v = Some h \<Longrightarrow>
   universe_channels (reconnect_loop uri atts st) v = Some h"
  by (induction atts arbitrary: st) (simp_all add: run_attempt_keeps)

lemma registry_ok_reconnect_loop:
  "registry_ok st \<Longrightarrow> registry_ok (reconnect_loop uri atts st)"
  by (induction atts arbitrary: st) (simp_all add: registry_ok_run_attempt)

lemma reconnect_loop_append:
  "reconnect_loop uri (xs @ ys) st = reconnect_loop uri ys (reconnect_loop uri xs st)"
  by (induction xs arbitrary: st) simp_all

text \<open>
  Whatever a pass of the loop meets, the pass begins with \<open>websockets.connect\<close>; so a
  longer run of the loop extends the trace of a shorter one by a new \<open>Connect\<close>.
\<close>

lemma run_attempt_starts_with_connect:
  "\<exists>rest. trace (run_attempt uri a st) = trace st @ Connect uri # rest"
proof (cases a)
  case (ConnectRaises e)
  then show ?thesis
    using trace_handle_exception[of e "log (Connect uri) st"]
    by (auto simp add: run_attempt_cases)
next
  case (Connected ms en)
  define s1 where "s1 = fst (receive_all ms (log LogConnected (log (Connect uri) st)))"
  from receive_all_trace_grows[of ms "log LogConnected (log (Connect uri) st)"]
  obtain rest where s1: "trace s1 = trace st @ Connect uri # LogConnected # rest"
    by (auto simp add: s1_def)
  from run_attempt_cases(2)[of uri ms en st]
  have "run_attempt uri a st = s1 \<or> (\<exists>e. run_attempt uri a st = handle_exception e s1)"
    using Connected by (simp add: s1_def)
  then show ?thesis
    using s1 trace_handle_exception[of _ s1] by (metis append_Cons append_assoc)
qed

lemma reconnect_loop_next_connect:
  "\<exists>rest. trace (reconnect_loop uri (atts @ [a]) st) =
     trace (reconnect_loop uri atts st) @ Connect uri # rest"
  by (simp add: reconnect_loop_append run_attempt_starts_with_connect)

text \<open>A pass that ends in an exception ends with the five-second sleep.\<close>

lemma run_attempt_raised_sleeps:
  assumes "a = ConnectRaises e \<or> a = Connected ms (Raised e)"
  shows "\<exists>before. trace (run_attempt uri a st) = before @ [Sleep 5]"
proof -
  obtain s1 r where r: "receive_all ms (log LogConnected (log (Connect uri) st)) = (s1, r)"
    by (cases "receive_all ms (log LogConnected (log (Connect uri) st))")
  have "run_attempt uri a st = handle_exception e (log (Connect uri) st) \<or>
      run_attempt uri a st = handle_exception e s1 \<or>
      run_attempt uri a st = handle_exception OtherException s1"
    using assms r by (cases r) (auto simp add: run_attempt_def)
  then have "\<exists>e' s. run_attempt uri a st = handle_exception e' s"
    by blast
  then show ?thesis
    using trace_handle_exception by (metis append_Cons append_Nil append_assoc)
qed

section \<open>The claims\<close>

subsection \<open>Frame decoding\<close>

text \<open>
  C1.  The claim: every binary message of length \<open>L > 2\<close> decodes to a frame of exactly 512
  entries, the data bytes first, zeros after, and data beyond 512 bytes cut off.  The
  handler pads a short frame (lines 230 to 232) but has no branch for a long one: a
  message with 513 data bytes is decoded to a frame of 513 entries, and that frame is what
  \<open>set_values\<close> is called with on a channel created with width 512.  The library refuses
  it, so the frame is not pushed and the handler raises.  (Up to 512 data bytes the claim
  holds, see \<open>decode_frame\<close>.)
\<close>

theorem decode_oversized_frame_not_truncated:
  "length (0 # 0 # replicate 513 (0 :: 8 word)) = 515 \<and>
   decode (0 # 0 # replicate 513 0) = Some (0, replicate 513 0) \<and>
   length (replicate 513 (0::int)) = 513 \<and>
   on_message (Bytes (0 # 0 # replicate 513 0)) initial_client =
     (fst (ensure_universe 0 (log (LogReceive 513 0) initial_client)),
      Some (LibraryError ''set_values'')) \<and>
   universe_channels (fst (ensure_universe 0 (log (LogReceive 513 0) initial_client))) 0 =
     Some 0 \<and>
   set_values 0 (replicate 513 0) (fst (ensure_universe 0 (log (LogReceive 513 0) initial_client))) =
     Inl (LibraryError ''set_values'') \<and>
   pushes (fst (on_message (Bytes (0 # 0 # replicate 513 0)) initial_client)) 0 = []"
proof -
  define st2 where "st2 = fst (ensure_universe 0 (log (LogReceive 513 0) initial_client))"
  have d: "decode (0 # 0 # replicate 513 0) = Some (0, replicate 513 0)"
    by (simp add: decode_def from_bytes_big_def extend_to_512_def)
  have e: "ensure_universe 0 (log (LogReceive 513 0) initial_client) = (st2, None)"
    and u: "universe_channels st2 0 = Some 0"
    and c: "channels st2 = [\<lparr>universe = 0, start = 1, width = 512,
        channel_name = ''Univ-'' @ py_str_int 0, set_values_calls = []\<rparr>]"
    unfolding st2_def
    by (simp_all add: ensure_universe_def register_universe_def Let_def max_universe_def
        initial_client_def)
  have s: "set_values 0 (replicate 513 0) st2 = Inl (LibraryError ''set_values'')"
    by (simp add: set_values_def c)
  have m: "on_message (Bytes (0 # 0 # replicate 513 0)) initial_client =
      (st2, Some (LibraryError ''set_values''))"
    using on_message_frame[OF d, of initial_client] e u s by simp
  have "pushes st2 0 = []"
    by (simp add: pushes_def u c)
  then show ?thesis
    using d u s m unfolding st2_def by simp
qed

text \<open>
  C6.  A binary message of at most two bytes decodes to nothing, and the handler returns
  the state it was given: no registration, no push, no log entry, no exception.
\<close>

theorem short_binary_ignored:
  "length bs \<le> 2 \<Longrightarrow> decode bs = None \<and> on_message (Bytes bs) st = (st, None)"
  by (simp add: decode_def on_message_def)

theorem short_binary_ignored_witness:
  "length [0 :: 8 word, 1] \<le> 2 \<and> decode [0, 1] = None \<and>
   on_message (Bytes [0, 1]) initial_client = (initial_client, None)"
  using short_binary_ignored [of "[0, 1]" initial_client] by simp

text \<open>
  C7.  The universe is the first two bytes read as a big-endian unsigned number, and the
  bytes \<open>00 01 FF\<close> decode to universe 1 with the frame 255 followed by 511 zeros.
\<close>

theorem decode_universe_big_endian:
  "decode (b0 # b1 # b2 # rest) =
     Some (uint b0 * 256 + uint b1, extend_to_512 (map uint (b2 # rest))) \<and>
   decode [0x00, 0x01, 0xFF] = Some (1, 255 # replicate 511 0)"
  by (simp add: decode_def from_bytes_big_def extend_to_512_def)

subsection \<open>Addresses\<close>

text \<open>
  C3.  For octets \<open>a\<close>, \<open>b\<close>, \<open>c\<close>, \<open>d\<close> the broadcast address of \<open>a.b.c.d\<close> is \<open>a.b.c.255\<close>;
  every string that is no such dotted quad gives \<open>255.255.255.255\<close>; and
  \<open>192.168.178.50\<close> gives \<open>192.168.178.255\<close>.  The function is total: the \<open>try\<close> turns
  every exception of the library into the fallback string.
\<close>

theorem subnet_broadcast_correct:
  "(\<forall>a b c d. octet a \<and> octet b \<and> octet c \<and> octet d \<longrightarrow>
      get_subnet_broadcast (dotted_quad a b c d) = dotted_quad a b c 255) \<and>
   (\<forall>ip. \<not> (\<exists>a b c d. octet a \<and> octet b \<and> octet c \<and> octet d \<and> ip = dotted_quad a b c d) \<longrightarrow>
      get_subnet_broadcast ip = ''255.255.255.255'') \<and>
   get_subnet_broadcast ''192.168.178.50'' = ''192.168.178.255''"
  using gsb_dotted_quad gsb_malformed gsb_example by blast

theorem subnet_broadcast_correct_witness:
  "octet 10 \<and> octet 0 \<and> octet 1 \<and>
   dotted_quad 10 0 0 1 = ''10.0.0.1'' \<and>
   get_subnet_broadcast ''10.0.0.1'' = ''10.0.0.255'' \<and>
   \<not> (\<exists>a b c d. octet a \<and> octet b \<and> octet c \<and> octet d \<and> ''1.2.3'' = dotted_quad a b c d) \<and>
   get_subnet_broadcast ''1.2.3'' = ''255.255.255.255''"
proof -
  have o: "octet 10" "octet 0" "octet 1"
    by (simp_all add: octet_def)
  have q: "dotted_quad 10 0 0 1 = ''10.0.0.1''" "dotted_quad 10 0 0 255 = ''10.0.0.255''"
    by (simp_all add: dotted_quad_def py_str_int_def py_str_nat.simps digit_char_def char_of_def)
  have n: "\<not> (\<exists>a b c d. octet a \<and> octet b \<and> octet c \<and> octet d \<and> ''1.2.3'' = dotted_quad a b c d)"
  proof
    assume "\<exists>a b c d. octet a \<and> octet b \<and> octet c \<and> octet d \<and> ''1.2.3'' = dotted_quad a b c d"
    then obtain a b c d where "0 \<le> a" "0 \<le> b" "0 \<le> c" "0 \<le> d"
      and e: "''1.2.3'' = dotted_quad a b c d"
      by (auto simp add: octet_def)
    then have "length (py_split CHR ''.'' (dotted_quad a b c d)) = 4"
      by (simp add: split_dotted_quad)
    then show False
      unfolding e[symmetric] by simp
  qed
  have g: "get_subnet_broadcast (dotted_quad 10 0 0 1) = dotted_quad 10 0 0 255"
    using subnet_broadcast_correct o by blast
  have m: "get_subnet_broadcast ''1.2.3'' = ''255.255.255.255''"
    using subnet_broadcast_correct n by blast
  from o q n m g show ?thesis
    by simp
qed





subsection \<open>The connection URI\<close>

lemma connection_uri_http_example:
  "connection_uri [''server_url'' \<mapsto> JStr ''http://192.168.178.50:8000'',
      ''device_secret'' \<mapsto> JStr ''s3cr3t''] =
   Inr ''ws://192.168.178.50:8000/dmx?token=s3cr3t''"
  by (simp add: connection_uri_def dict_item_def)

text \<open>
  C4.  The claim: the URI is the server URL with \<open>http\<close> replaced by \<open>ws\<close> and \<open>https\<close> by
  \<open>wss\<close>, then \<open>/dmx?token=\<close> and the device secret.  Line 198 replaces the text \<open>http://\<close>
  only, which does not occur in a URL that starts with \<open>https://\<close>: such a URL keeps its
  scheme, and the URI handed to \<open>websockets.connect\<close> is an \<open>https\<close> one.
\<close>

theorem connection_uri_https_not_rewritten:
  "connection_uri [''server_url'' \<mapsto> JStr ''https://example.com'',
      ''device_secret'' \<mapsto> JStr ''s3cr3t''] =
   Inr ''https://example.com/dmx?token=s3cr3t''"
  by (simp add: connection_uri_def dict_item_def)

subsection \<open>The universe registry\<close>

text \<open>
  C5, as the code has it.  The claim is made for every UniverseId, that is for every
  16-bit number.  The library takes universe addresses up to 32767 only: the universe
  32768 (header bytes \<open>80 00\<close>) is logged, \<open>node.add_universe\<close> raises, line 228 is never
  reached and no handle exists, the first time and every time after.
\<close>

theorem registry_rejects_universe_32768:
  "from_bytes_big [0x80, 0x00] = 32768 \<and>
   ensure_universe 32768 initial_client =
     (log (LogRegister 32768) initial_client, Some (LibraryError ''add_universe'')) \<and>
   universe_channels (fst (ensure_universe 32768 initial_client)) 32768 = None \<and>
   channels (fst (ensure_universe 32768 initial_client)) = [] \<and>
   snd (ensure_universe 32768 (fst (ensure_universe 32768 initial_client))) =
     Some (LibraryError ''add_universe'') \<and>
   snd (on_message (Bytes [0x80, 0x00, 0x01]) initial_client) =
     Some (LibraryError ''add_universe'')"
proof -
  have f: "from_bytes_big [0x80, 0x00] = 32768"
    by (simp add: from_bytes_big_def)
  have e: "ensure_universe 32768 st =
      (log (LogRegister 32768) st, Some (LibraryError ''add_universe''))"
    if "universe_channels st 32768 = None" for st
    using that by (intro ensure_universe_raises) (simp_all add: max_universe_def)
  have i: "universe_channels initial_client 32768 = None" "channels initial_client = []"
    by (simp_all add: initial_client_def)
  have d: "decode [0x80, 0x00, 0x01] = Some (32768, extend_to_512 [1])"
    by (simp add: decode_def from_bytes_big_def)
  have "snd (on_message (Bytes [0x80, 0x00, 0x01]) initial_client) =
      Some (LibraryError ''add_universe'')"
    using on_message_frame[OF d, of initial_client] e[of "log (LogReceive 1 32768) initial_client"] i
    by simp
  then show ?thesis
    using f e[of initial_client] e[of "log (LogRegister 32768) initial_client"] i by simp
qed

text \<open>
  C5, amended to the universes the library takes.  In every state the loop can reach,
  resolving a universe \<open>u\<close> from 0 to 32767 (lines 222 to 228) raises nothing and leaves
  \<open>u\<close> registered with a handle to a channel of the node made for \<open>u\<close> with start 1 and
  width 512; the node then has exactly one channel for \<open>u\<close>; resolving \<open>u\<close> again changes
  nothing, so it yields the same handle and creates nothing; and through every later pass
  of the loop the entry stays, with the same handle and still one channel.
\<close>

theorem registry_resolve_idempotent:
  fixes uri :: string and attempts later :: "attempt list" and u :: int
  assumes "0 \<le> u" and "u \<le> 32767"
  defines "st \<equiv> fst (ensure_universe u (reconnect_loop uri attempts initial_client))"
  shows "snd (ensure_universe u (reconnect_loop uri attempts initial_client)) = None \<and>
    (\<exists>h. universe_channels st u = Some h \<and> h < length (channels st) \<and>
        universe (channels st ! h) = u \<and> start (channels st ! h) = 1 \<and>
        width (channels st ! h) = 512) \<and>
    length (filter (\<lambda>c. universe c = u) (channels st)) = 1 \<and>
    ensure_universe u st = (st, None) \<and>
    (\<forall>h. universe_channels st u = Some h \<longrightarrow>
       universe_channels (reconnect_loop uri later st) u = Some h \<and>
       length (filter (\<lambda>c. universe c = u) (channels (reconnect_loop uri later st))) = 1)"
proof -
  have r: "0 \<le> u" "u \<le> max_universe"
    using assms(1,2) by (simp_all add: max_universe_def)
  have ok: "registry_ok st"
    unfolding st_def
    by (intro registry_ok_ensure registry_ok_reconnect_loop registry_ok_initial)
  have 0: "snd (ensure_universe u (reconnect_loop uri attempts initial_client)) = None"
    using ensure_universe_ok[OF r] by simp
  obtain h where h: "universe_channels st u = Some h"
    unfolding st_def using ensure_universe_ok[OF r] by blast
  have 1: "h < length (channels st) \<and> universe (channels st ! h) = u \<and>
      start (channels st ! h) = 1 \<and> width (channels st ! h) = 512"
    using ok h by (simp add: registry_ok_def)
  have 2: "length (filter (\<lambda>c. universe c = u) (channels st)) = 1"
    using channel_count[OF ok, of u] h by simp
  have 3: "ensure_universe u st = (st, None)"
    unfolding st_def using 0 by (rule ensure_universe_idem)
  have 4: "universe_channels (reconnect_loop uri later st) u = Some h"
    using h by (rule reconnect_loop_keeps)
  have 5: "length (filter (\<lambda>c. universe c = u) (channels (reconnect_loop uri later st))) = 1"
    using channel_count[OF registry_ok_reconnect_loop[OF ok], of u uri later] 4 by simp
  show ?thesis
    using 0 h 1 2 3 4 5 by simp
qed

theorem registry_resolve_idempotent_witness:
  "(0::int) \<le> 1 \<and> (1::int) \<le> 32767 \<and>
   universe_channels
     (fst (ensure_universe 1 (reconnect_loop ''ws://h/dmx?token=s'' [] initial_client))) 1
     = Some 0 \<and>
   universe_channels
     (reconnect_loop ''ws://h/dmx?token=s'' [Connected [Bytes [0, 2, 7], Bytes [0, 1, 9]] Exhausted]
       (fst (ensure_universe 1 (reconnect_loop ''ws://h/dmx?token=s'' [] initial_client)))) 1
     = Some 0"
proof -
  have h: "universe_channels
      (fst (ensure_universe 1 (reconnect_loop ''ws://h/dmx?token=s'' [] initial_client))) 1
      = Some 0"
    by (simp add: ensure_universe_def register_universe_def Let_def max_universe_def
        initial_client_def)
  show ?thesis
    using registry_resolve_idempotent [of 1 "''ws://h/dmx?token=s''" "[]"
        "[Connected [Bytes [0, 2, 7], Bytes [0, 1, 9]] Exhausted]"] h
    by simp
qed

subsection \<open>Order of pushes\<close>

text \<open>
  C9.  In every state the loop can reach, and for every universe, the frames pushed to
  its channel during one connection are, after the frames pushed before, the frames that
  the messages carry for that universe, in the order the messages arrived, up to the
  first message on which the handler raises (a universe the library refuses, or more than
  512 data bytes).  That message ends the connection: it and the messages after it push
  nothing, so no push is ever out of order.  The handler raises on no message exactly
  when every message is of the handled kind, and then every frame is pushed.
\<close>

theorem pushes_in_arrival_order:
  fixes uri :: string and attempts :: "attempt list"
  defines "st \<equiv> reconnect_loop uri attempts initial_client"
  shows "pushes (fst (receive_all ms st)) u =
      pushes st u @ frames_for u (takeWhile handled ms) \<and>
    (snd (receive_all ms st) = None \<longleftrightarrow> list_all handled ms) \<and>
    (list_all handled ms \<longrightarrow>
      pushes (fst (receive_all ms st)) u = pushes st u @ frames_for u ms)"
proof -
  have ok: "registry_ok st"
    unfolding st_def by (intro registry_ok_reconnect_loop registry_ok_initial)
  have all: "takeWhile handled ms = ms" if "list_all handled ms"
    using that by (simp add: list_all_iff)
  from receive_all_step[OF ok, of ms u]
  have p: "pushes (fst (receive_all ms st)) u =
      pushes st u @ frames_for u (takeWhile handled ms)"
    and r: "snd (receive_all ms st) = None \<longleftrightarrow> list_all handled ms"
    by simp_all
  have "pushes (fst (receive_all ms st)) u = pushes st u @ frames_for u ms"
    if "list_all handled ms"
    using p all[OF that] by simp
  then show ?thesis
    using p r by blast
qed

theorem pushes_in_arrival_order_witness:
  "list_all handled [Bytes [0, 1, 10], Bytes [0, 2, 30], Bytes [0, 1, 20]] \<and>
   pushes (fst (receive_all [Bytes [0, 1, 10], Bytes [0, 2, 30], Bytes [0, 1, 20]]
     (reconnect_loop ''ws://h/dmx?token=s'' [] initial_client))) 1 =
     [10 # replicate 511 0, 20 # replicate 511 0]"
proof -
  have d: "decode [0, 1, 10] = Some (1, 10 # replicate 511 0)"
    "decode [0, 2, 30] = Some (2, 30 # replicate 511 0)"
    "decode [0, 1, 20] = Some (1, 20 # replicate 511 0)"
    by (simp_all add: decode_def from_bytes_big_def extend_to_512_def)
  have h: "list_all handled [Bytes [0, 1, 10], Bytes [0, 2, 30], Bytes [0, 1, 20]]"
    by (simp add: handled_def d max_universe_def)
  have p: "pushes (reconnect_loop ''ws://h/dmx?token=s'' [] initial_client) 1 = []"
    by (simp add: pushes_def initial_client_def)
  show ?thesis
    using pushes_in_arrival_order [of "[Bytes [0, 1, 10], Bytes [0, 2, 30], Bytes [0, 1, 20]]"
        "''ws://h/dmx?token=s''" "[]" 1] h p d
    by simp
qed

subsection \<open>Reconnecting\<close>

text \<open>
  C8.  The claim: after every closure or error the client sleeps five seconds before it
  connects again.  The two \<open>except\<close> clauses do sleep.  But when the iteration over the
  messages just ends (the server closed the connection normally, which \<open>async for\<close> takes
  as the end of the stream), the \<open>try\<close> completes without an exception and the \<open>while\<close>
  loop calls \<open>websockets.connect\<close> again at once: two such connections in a row leave
  no \<open>Sleep\<close> between the two \<open>Connect\<close> events.
\<close>

theorem normal_close_reconnects_without_delay:
  "trace (reconnect_loop ''ws://example.com/dmx?token=s3cr3t''
      [Connected [] Exhausted, Connected [] Exhausted] initial_client) =
   [Connect ''ws://example.com/dmx?token=s3cr3t'', LogConnected,
    Connect ''ws://example.com/dmx?token=s3cr3t'', LogConnected]"
  by (simp add: run_attempt_def initial_client_def)

end
